theory Spec2Isabelle
  imports Complex_Main "HOL-Library.Char_ord" "HOL-Library.List_Lexorder"
    "HOL-Library.Product_Lexorder" "HOL-Library.Sublist"
begin

section \<open>Double precision numbers\<close>

text \<open>
  The \<^verbatim>\<open>dtypes\<close> dictionary of \<^verbatim>\<open>load_data\<close> makes \<^verbatim>\<open>DEPARTURE_DELAY\<close> a \<^verbatim>\<open>float64\<close> column, so
  a delay is an IEEE double: a finite binary fraction, an infinity, or NaN, which is also
  how the column marks a missing value. A finite double is given by its exact value; the
  sign of zero is not kept, and nothing in the script divides by a delay.
\<close>

datatype f64 = Finite rat | PosInf | NegInf | NaN

text \<open>
  The binary exponent of a positive number, searched inside the range of the format:
  at most 1024 halvings, at most 1022 doublings (below that the spacing of the doubles
  no longer shrinks).
\<close>

fun exp_up :: "nat \<Rightarrow> rat \<Rightarrow> int" where
  "exp_up 0 q = 0"
| "exp_up (Suc n) q = (if q < 2 then 0 else exp_up n (q / 2) + 1)"

fun exp_down :: "nat \<Rightarrow> rat \<Rightarrow> int" where
  "exp_down 0 q = 0"
| "exp_down (Suc n) q = (if 1 \<le> q then 0 else exp_down n (q * 2) - 1)"

definition exponent :: "rat \<Rightarrow> int" where
  "exponent q = (if 1 \<le> q then exp_up 1024 q else exp_down 1022 q)"

definition pow2 :: "int \<Rightarrow> rat" where
  "pow2 e = (if 0 \<le> e then 2 ^ nat e else 1 / 2 ^ nat (- e))"

text \<open>Rounding to the nearest integer, a tie to the even one.\<close>

definition round_half_even :: "rat \<Rightarrow> int" where
  "round_half_even x =
     (let f = \<lfloor>x\<rfloor>; d = x - of_int f
      in if d < 1 / 2 then f else if 1 / 2 < d then f + 1
         else if even f then f else f + 1)"

text \<open>
  The double nearest to a rational number (53 significant bits, ties to the even
  significand), an infinity when the rounded magnitude reaches \<open>2 ^ 1024\<close>.
\<close>

definition round64 :: "rat \<Rightarrow> f64" where
  "round64 q =
     (if q = 0 then Finite 0
      else (let a = \<bar>q\<bar>;
                u = pow2 (exponent a - 52);
                r = of_int (round_half_even (a / u)) * u
            in if pow2 1024 \<le> r then (if 0 < q then PosInf else NegInf)
               else Finite (if 0 < q then r else - r)))"

fun fneg :: "f64 \<Rightarrow> f64" where
  "fneg (Finite a) = Finite (- a)"
| "fneg PosInf = NegInf"
| "fneg NegInf = PosInf"
| "fneg NaN = NaN"

fun fadd :: "f64 \<Rightarrow> f64 \<Rightarrow> f64" where
  "fadd NaN y = NaN"
| "fadd x NaN = NaN"
| "fadd (Finite a) (Finite b) = round64 (a + b)"
| "fadd PosInf NegInf = NaN"
| "fadd NegInf PosInf = NaN"
| "fadd PosInf y = PosInf"
| "fadd NegInf y = NegInf"
| "fadd x PosInf = PosInf"
| "fadd x NegInf = NegInf"

definition fsub :: "f64 \<Rightarrow> f64 \<Rightarrow> f64" where
  "fsub x y = fadd x (fneg y)"

text \<open>A sum divided by a positive count of rows.\<close>

fun fdiv_count :: "f64 \<Rightarrow> nat \<Rightarrow> f64" where
  "fdiv_count (Finite a) n = round64 (a / of_nat n)"
| "fdiv_count x n = x"


section \<open>Flight records and tables\<close>

text \<open>
  The dashboard script of \<^verbatim>\<open>app.py\<close> works on one table whose five columns are fixed by
  the \<^verbatim>\<open>dtypes\<close> dictionary of \<^verbatim>\<open>load_data\<close>: \<^verbatim>\<open>MONTH\<close> and \<^verbatim>\<open>DAY\<close> are nullable integers
  (\<^verbatim>\<open>Int64\<close>), \<^verbatim>\<open>AIRLINE\<close> and \<^verbatim>\<open>ORIGIN_AIRPORT\<close> are nullable strings, and
  \<^verbatim>\<open>DEPARTURE_DELAY\<close> is a \<^verbatim>\<open>float64\<close>. A row of that table is a record; a missing value
  of a nullable column is \<open>None\<close>, a missing delay is \<open>NaN\<close>.
\<close>

record flight =
  MONTH :: "int option"
  DAY :: "int option"
  AIRLINE :: "string option"
  ORIGIN_AIRPORT :: "string option"
  DEPARTURE_DELAY :: f64

type_synonym frame = "flight list"

text \<open>A boolean column; an entry of a nullable comparison may itself be missing.\<close>

type_synonym mask = "bool option list"

text \<open>\<^verbatim>\<open>series.notna()\<close> on a \<^verbatim>\<open>float64\<close> column: a plain boolean per entry.\<close>

definition notna :: "f64 list \<Rightarrow> mask" where
  "notna col = map (\<lambda>v. Some (v \<noteq> NaN)) col"

text \<open>\<^verbatim>\<open>series == x\<close> on a nullable column: missing where the entry is missing.\<close>

definition eq_scalar :: "'a option list \<Rightarrow> 'a \<Rightarrow> mask" where
  "eq_scalar col x = map (\<lambda>v. case v of None \<Rightarrow> None | Some a \<Rightarrow> Some (a = x)) col"

text \<open>\<^verbatim>\<open>a & b\<close> on nullable booleans is Kleene conjunction, entry by entry.\<close>

fun kleene_and :: "bool option \<Rightarrow> bool option \<Rightarrow> bool option" where
  "kleene_and (Some False) b = Some False"
| "kleene_and a (Some False) = Some False"
| "kleene_and (Some True) (Some True) = Some True"
| "kleene_and a b = None"

definition mask_and :: "mask \<Rightarrow> mask \<Rightarrow> mask" where
  "mask_and a b = map2 kleene_and a b"

text \<open>
  \<^verbatim>\<open>df[mask]\<close>: the rows whose mask entry is true, in their order; a missing entry of the
  mask selects nothing.
\<close>

definition getitem_mask :: "'r list \<Rightarrow> mask \<Rightarrow> 'r list" where
  "getitem_mask df m = map fst (filter (\<lambda>(r, b). b = Some True) (zip df m))"

section \<open>The data loader\<close>

text \<open>
  What \<^verbatim>\<open>pd.read_csv\<close> finds under the name \<^verbatim>\<open>flights.csv\<close>: no file, a file that cannot
  be read, or a file with a header line (the names of all its columns) and data lines.
  Of a data line only the fields under the five columns of \<^verbatim>\<open>usecols\<close> matter. A field is
  missing (empty, or one of the library's markers of a missing value), or it has a text;
  the text is read by the library's tokenizer as an integer literal, as another numeric
  literal with its exact value, as an infinity with its sign, or as no number at all.
\<close>

datatype reading = NotNumber | IntLit int | DecLit rat | InfLit bool

datatype cell = Missing | Field string reading

record raw_line =
  cell_MONTH :: cell
  cell_DAY :: cell
  cell_AIRLINE :: cell
  cell_ORIGIN_AIRPORT :: cell
  cell_DEPARTURE_DELAY :: cell

datatype source = Absent | Denied | Csv (header: "string list") (body: "raw_line list")

text \<open>
  The exceptions of the library that the script can meet. \<open>ConversionError\<close> stands for
  the \<^verbatim>\<open>ValueError\<close> or \<^verbatim>\<open>TypeError\<close> that the conversion of a column to its declared type
  raises; \<open>ValueError\<close> is raised for a name of \<^verbatim>\<open>usecols\<close> that the header lacks, and by
  \<^verbatim>\<open>pivot\<close> for a repeated index entry.
\<close>

datatype py_error = FileNotFoundError | PermissionError | ValueError | ConversionError

definition cols :: "string list" where
  "cols = [''MONTH'', ''DAY'', ''AIRLINE'', ''ORIGIN_AIRPORT'', ''DEPARTURE_DELAY'']"

text \<open>
  The conversion of a field to the three declared types; \<open>None\<close> is a failed conversion.
  \<^verbatim>\<open>Int64\<close> takes an integer literal inside the 64-bit range, and a numeric literal whose
  double is a whole number inside that range; \<^verbatim>\<open>float64\<close> rounds a literal to the nearest
  double; \<^verbatim>\<open>string\<close> keeps the text.
\<close>

definition in_int64 :: "int \<Rightarrow> bool" where
  "in_int64 i \<longleftrightarrow> - (2 ^ 63) \<le> i \<and> i < 2 ^ 63"

definition whole :: "rat \<Rightarrow> bool" where
  "whole q \<longleftrightarrow> of_int \<lfloor>q\<rfloor> = q"

fun to_Int64 :: "cell \<Rightarrow> int option option" where
  "to_Int64 Missing = Some None"
| "to_Int64 (Field s (IntLit i)) = (if in_int64 i then Some (Some i) else None)"
| "to_Int64 (Field s (DecLit q)) =
     (case round64 q of
        Finite r \<Rightarrow> if whole r \<and> in_int64 \<lfloor>r\<rfloor> then Some (Some \<lfloor>r\<rfloor>) else None
      | _ \<Rightarrow> None)"
| "to_Int64 (Field s (InfLit b)) = None"
| "to_Int64 (Field s NotNumber) = None"

fun to_float64 :: "cell \<Rightarrow> f64 option" where
  "to_float64 Missing = Some NaN"
| "to_float64 (Field s (IntLit i)) = Some (round64 (of_int i))"
| "to_float64 (Field s (DecLit q)) = Some (round64 q)"
| "to_float64 (Field s (InfLit b)) = Some (if b then PosInf else NegInf)"
| "to_float64 (Field s NotNumber) = None"

fun to_string :: "cell \<Rightarrow> string option" where
  "to_string Missing = None"
| "to_string (Field s r) = Some s"

definition convert_line :: "raw_line \<Rightarrow> flight option" where
  "convert_line l =
     (case (to_Int64 (cell_MONTH l), to_Int64 (cell_DAY l), to_float64 (cell_DEPARTURE_DELAY l)) of
        (Some m, Some d, Some x) \<Rightarrow>
          Some \<lparr>MONTH = m, DAY = d, AIRLINE = to_string (cell_AIRLINE l),
                ORIGIN_AIRPORT = to_string (cell_ORIGIN_AIRPORT l), DEPARTURE_DELAY = x\<rparr>
      | _ \<Rightarrow> None)"

fun convert :: "raw_line list \<Rightarrow> py_error + frame" where
  "convert [] = Inr []"
| "convert (l # ls) =
     (case convert_line l of
        None \<Rightarrow> Inl ConversionError
      | Some r \<Rightarrow> (case convert ls of Inl e \<Rightarrow> Inl e | Inr rs \<Rightarrow> Inr (r # rs)))"

text \<open>
  \<^verbatim>\<open>pd.read_csv("flights.csv", usecols=cols, dtype=dtypes, nrows=nrows)\<close>: a name of
  \<^verbatim>\<open>usecols\<close> that the header lacks is a \<^verbatim>\<open>ValueError\<close>; otherwise the first \<^verbatim>\<open>nrows\<close> data
  lines are read and their fields converted.
\<close>

fun read_csv :: "source \<Rightarrow> string list \<Rightarrow> nat \<Rightarrow> py_error + frame" where
  "read_csv Absent usecols nrows = Inl FileNotFoundError"
| "read_csv Denied usecols nrows = Inl PermissionError"
| "read_csv (Csv hdr lines) usecols nrows =
     (if set usecols \<subseteq> set hdr then convert (take nrows lines) else Inl ValueError)"

definition load_data :: "source \<Rightarrow> nat \<Rightarrow> py_error + frame" where
  "load_data src nrows =
     (case read_csv src cols nrows of
        Inl e \<Rightarrow> Inl e
      | Inr df \<Rightarrow> Inr (getitem_mask df (notna (map DEPARTURE_DELAY df))))"

section \<open>The filter stage\<close>

text \<open>
  \<^verbatim>\<open>df[(df["AIRLINE"] == airline) & (df["MONTH"] == month)]\<close>, the right-hand side of
  lines 50 and 53.
\<close>

definition filtered :: "frame \<Rightarrow> string \<Rightarrow> int \<Rightarrow> frame" where
  "filtered df airline month =
     getitem_mask df (mask_and (eq_scalar (map AIRLINE df) airline)
                               (eq_scalar (map MONTH df) month))"

section \<open>The aggregation stage\<close>

text \<open>
  The mean of the delays of a group as \<^verbatim>\<open>groupby(...).agg(("DEPARTURE_DELAY", "mean"))\<close>
  takes it: the NaN entries are skipped; the others are added in the order of the rows
  by compensated (Kahan) summation in double arithmetic, where a compensation that is NaN
  is reset to zero; the sum is divided by the number of entries added. A group without
  such an entry has the mean NaN.
\<close>

definition kahan_step :: "f64 \<times> f64 \<Rightarrow> f64 \<Rightarrow> f64 \<times> f64" where
  "kahan_step acc v =
     (let y = fsub v (snd acc);
          t = fadd (fst acc) y;
          c = fsub (fsub t (fst acc)) y
      in (t, if c = NaN then Finite 0 else c))"

definition mean :: "f64 list \<Rightarrow> f64" where
  "mean vs =
     (let xs = filter (\<lambda>v. v \<noteq> NaN) vs
      in if xs = [] then NaN
         else fdiv_count (fst (foldl kahan_step (Finite 0, Finite 0) xs)) (length xs))"

text \<open>
  \<^verbatim>\<open>groupby(key)\<close> with the library's defaults (\<^verbatim>\<open>sort=True\<close>, \<^verbatim>\<open>dropna=True\<close>): a row whose
  key is missing belongs to no group, the groups come in ascending order of their key, and
  the rows of a group keep their order.
\<close>

fun group_insert :: "'k::linorder \<Rightarrow> 'r \<Rightarrow> ('k \<times> 'r list) list \<Rightarrow> ('k \<times> 'r list) list" where
  "group_insert k r [] = [(k, [r])]"
| "group_insert k r ((k', rs) # g) =
     (if k < k' then (k, [r]) # (k', rs) # g
      else if k = k' then (k', rs @ [r]) # g
      else (k', rs) # group_insert k r g)"

fun group_rows :: "('r \<Rightarrow> 'k::linorder option) \<Rightarrow> ('k \<times> 'r list) list \<Rightarrow> 'r list \<Rightarrow> ('k \<times> 'r list) list" where
  "group_rows key g [] = g"
| "group_rows key g (r # rs) =
     group_rows key (case key r of None \<Rightarrow> g | Some k \<Rightarrow> group_insert k r g) rs"

definition groupby :: "('r \<Rightarrow> 'k::linorder option) \<Rightarrow> 'r list \<Rightarrow> ('k \<times> 'r list) list" where
  "groupby key df = group_rows key [] df"

text \<open>\<^verbatim>\<open>.agg(retard_moyen=("DEPARTURE_DELAY", "mean"))\<close> with \<^verbatim>\<open>as_index=False\<close>: one row per group,
  the key and the mean.\<close>

definition agg_mean :: "('k \<times> frame) list \<Rightarrow> ('k \<times> f64) list" where
  "agg_mean g = map (\<lambda>(k, rs). (k, mean (map DEPARTURE_DELAY rs))) g"

text \<open>Lines 58 to 62 and 65 to 69.\<close>

definition monthly :: "frame \<Rightarrow> (int \<times> f64) list" where
  "monthly df = agg_mean (groupby MONTH df)"

definition trend :: "frame \<Rightarrow> (int \<times> f64) list" where
  "trend flt = agg_mean (groupby DAY flt)"

text \<open>
  \<^verbatim>\<open>series.value_counts()\<close>: the present values are counted in a table that keeps them in
  the order of their first appearance, and the table is then put in descending order of
  the counts by a stable sort, so that equal counts stay in the order of the table.
\<close>

fun count_insert :: "'a \<Rightarrow> ('a \<times> nat) list \<Rightarrow> ('a \<times> nat) list" where
  "count_insert k [] = [(k, 1)]"
| "count_insert k ((k', n) # t) =
     (if k = k' then (k', Suc n) # t else (k', n) # count_insert k t)"

fun count_table :: "('a \<times> nat) list \<Rightarrow> 'a option list \<Rightarrow> ('a \<times> nat) list" where
  "count_table t [] = t"
| "count_table t (None # vs) = count_table t vs"
| "count_table t (Some k # vs) = count_table (count_insert k t) vs"

fun insert_desc :: "('a \<times> nat) \<Rightarrow> ('a \<times> nat) list \<Rightarrow> ('a \<times> nat) list" where
  "insert_desc x [] = [x]"
| "insert_desc x (y # ys) =
     (if snd y \<le> snd x then x # y # ys else y # insert_desc x ys)"

definition sort_values_desc :: "('a \<times> nat) list \<Rightarrow> ('a \<times> nat) list" where
  "sort_values_desc t = foldr insert_desc t []"

definition value_counts :: "'a option list \<Rightarrow> ('a \<times> nat) list" where
  "value_counts col = sort_values_desc (count_table [] col)"

text \<open>\<^verbatim>\<open>series.nlargest(n)\<close> with the default \<^verbatim>\<open>keep='first'\<close>: the \<open>n\<close> largest entries in
  descending order, equal entries in their order of appearance in the series.\<close>

definition nlargest :: "nat \<Rightarrow> ('a \<times> nat) list \<Rightarrow> ('a \<times> nat) list" where
  "nlargest n s = take n (sort_values_desc s)"

text \<open>Lines 72 to 74.\<close>

definition counts :: "frame \<Rightarrow> (string \<times> nat) list" where
  "counts flt = nlargest 5 (value_counts (map ORIGIN_AIRPORT flt))"

definition top5_airports :: "(string \<times> nat) list \<Rightarrow> string list" where
  "top5_airports cnt = map fst cnt"

text \<open>\<^verbatim>\<open>series.isin(values)\<close>: a plain boolean per entry, false where the entry is missing.\<close>

definition isin :: "'a option list \<Rightarrow> 'a list \<Rightarrow> mask" where
  "isin col vals = map (\<lambda>v. case v of None \<Rightarrow> Some False | Some a \<Rightarrow> Some (a \<in> set vals)) col"

definition df_top5 :: "frame \<Rightarrow> string list \<Rightarrow> frame" where
  "df_top5 flt top5 = getitem_mask flt (isin (map ORIGIN_AIRPORT flt) top5)"

text \<open>
  Lines 79 to 83: \<^verbatim>\<open>groupby(["ORIGIN_AIRPORT", "DAY"])\<close>. The key of a row is the pair of both
  values, missing when one of them is; pairs are ordered by airport first, then by day.
\<close>

definition airport_day :: "flight \<Rightarrow> (string \<times> int) option" where
  "airport_day r =
     (case ORIGIN_AIRPORT r of
        None \<Rightarrow> None
      | Some a \<Rightarrow> (case DAY r of None \<Rightarrow> None | Some d \<Rightarrow> Some (a, d)))"

definition heat :: "frame \<Rightarrow> ((string \<times> int) \<times> f64) list" where
  "heat top5 = agg_mean (groupby airport_day top5)"

text \<open>
  Line 84, \<^verbatim>\<open>heat.pivot(index="ORIGIN_AIRPORT", columns="DAY", values="retard_moyen")\<close>: the row
  labels are the airports of \<^verbatim>\<open>heat\<close> and the column labels its days, both without
  repetition and ascending; the cell of an airport and a day is the value of that row of
  \<^verbatim>\<open>heat\<close>, and NaN, the mark of a missing value, when \<^verbatim>\<open>heat\<close> has no such row. Two rows
  of the input with the same airport and day are a \<^verbatim>\<open>ValueError\<close>.
\<close>

record pivot_table =
  pivot_index :: "string list"
  pivot_columns :: "int list"
  pivot_values :: "f64 list list"

definition cell_of :: "((string \<times> int) \<times> f64) list \<Rightarrow> string \<Rightarrow> int \<Rightarrow> f64" where
  "cell_of h a d = (case map_of h (a, d) of None \<Rightarrow> NaN | Some v \<Rightarrow> v)"

definition pivot :: "((string \<times> int) \<times> f64) list \<Rightarrow> py_error + pivot_table" where
  "pivot h =
     (if distinct (map fst h)
      then (let idx = sort (remdups (map (fst \<circ> fst) h));
                cs = sort (remdups (map (snd \<circ> fst) h))
            in Inr \<lparr>pivot_index = idx, pivot_columns = cs,
                    pivot_values = map (\<lambda>a. map (\<lambda>d. cell_of h a d) cs) idx\<rparr>)
      else Inl ValueError)"

text \<open>
  Line 88, \<^verbatim>\<open>filtered[["DAY", "DEPARTURE_DELAY"]]\<close>: a table of two named columns. The tab
  that shows it reads only its shape, so it is kept as a table of any number of columns.
\<close>

datatype scalar = Int64 "int option" | Float64 f64

record dataframe =
  df_columns :: "string list"
  df_rows :: "scalar list list"

definition scatter_matrix_df :: "frame \<Rightarrow> dataframe" where
  "scatter_matrix_df flt =
     \<lparr>df_columns = [''DAY'', ''DEPARTURE_DELAY''],
      df_rows = map (\<lambda>r. [Int64 (DAY r), Float64 (DEPARTURE_DELAY r)]) flt\<rparr>"

text \<open>\<^verbatim>\<open>frame.empty\<close>: true when one of the two axes has length zero.\<close>

definition empty_df :: "dataframe \<Rightarrow> bool" where
  "empty_df t \<longleftrightarrow> df_rows t = [] \<or> df_columns t = []"

section \<open>The script from the filter to the derived tables\<close>

text \<open>
  The variables of the script. Lines 50 to 88 are assignments; each one reads variables
  assigned before it and overwrites one variable.
\<close>

record env =
  v_df :: frame
  v_airline :: string
  v_month :: int
  v_filtered :: frame
  v_monthly :: "(int \<times> f64) list"
  v_trend :: "(int \<times> f64) list"
  v_counts :: "(string \<times> nat) list"
  v_top5_airports :: "string list"
  v_df_top5 :: frame
  v_heat :: "((string \<times> int) \<times> f64) list"
  v_heat_pivot :: pivot_table
  v_scatter_matrix_df :: dataframe

definition line50 :: "env \<Rightarrow> env" where
  "line50 e = e\<lparr>v_filtered := filtered (v_df e) (v_airline e) (v_month e)\<rparr>"

definition line53 :: "env \<Rightarrow> env" where
  "line53 e = e\<lparr>v_filtered := filtered (v_df e) (v_airline e) (v_month e)\<rparr>"

definition line58 :: "env \<Rightarrow> env" where
  "line58 e = e\<lparr>v_monthly := monthly (v_df e)\<rparr>"

definition line65 :: "env \<Rightarrow> env" where
  "line65 e = e\<lparr>v_trend := trend (v_filtered e)\<rparr>"

definition line72 :: "env \<Rightarrow> env" where
  "line72 e = e\<lparr>v_counts := counts (v_filtered e)\<rparr>"

definition line73 :: "env \<Rightarrow> env" where
  "line73 e = e\<lparr>v_top5_airports := top5_airports (v_counts e)\<rparr>"

definition line74 :: "env \<Rightarrow> env" where
  "line74 e = e\<lparr>v_df_top5 := df_top5 (v_filtered e) (v_top5_airports e)\<rparr>"

definition line79 :: "env \<Rightarrow> env" where
  "line79 e = e\<lparr>v_heat := heat (v_df_top5 e)\<rparr>"

definition line84 :: "env \<Rightarrow> py_error + env" where
  "line84 e = (case pivot (v_heat e) of Inl x \<Rightarrow> Inl x | Inr p \<Rightarrow> Inr (e\<lparr>v_heat_pivot := p\<rparr>))"

definition line88 :: "env \<Rightarrow> env" where
  "line88 e = e\<lparr>v_scatter_matrix_df := scatter_matrix_df (v_filtered e)\<rparr>"

text \<open>The lines in the order of the file, and the same with line 53 left out.\<close>

definition tables :: "env \<Rightarrow> py_error + env" where
  "tables e =
     (case line84 (line79 (line74 (line73 (line72 (line65 (line58 (line53 (line50 e)))))))) of
        Inl x \<Rightarrow> Inl x
      | Inr e' \<Rightarrow> Inr (line88 e'))"

definition tables_without_line53 :: "env \<Rightarrow> py_error + env" where
  "tables_without_line53 e =
     (case line84 (line79 (line74 (line73 (line72 (line65 (line58 (line50 e))))))) of
        Inl x \<Rightarrow> Inl x
      | Inr e' \<Rightarrow> Inr (line88 e'))"

section \<open>The scatter-matrix tab\<close>

text \<open>Lines 152 to 159: what the sixth tab shows for a table.\<close>

datatype rendering = Plot dataframe | WarningNoData | WarningNotEnoughColumns

definition tab5 :: "dataframe \<Rightarrow> rendering" where
  "tab5 t =
     (if \<not> empty_df t \<and> length (df_columns t) > 1 then Plot t
      else if empty_df t then WarningNoData
      else WarningNotEnoughColumns)"

section \<open>A run of the whole script\<close>

text \<open>
  A run loads the data with the default row cap (line 32), and only then computes and shows
  anything else. \<^verbatim>\<open>load_data\<close> catches nothing and line 32 is not inside a \<^verbatim>\<open>try\<close>, so an
  exception of the read ends the run there: the outcome of the run is that exception,
  which the host shows to the user in place of the page. The two sidebar widgets are
  taken by the values they return.
\<close>

record page =
  status_rows :: nat
  preview :: frame
  computed :: env
  scatter_tab :: rendering

definition run :: "source \<Rightarrow> string \<Rightarrow> int \<Rightarrow> env \<Rightarrow> py_error + page" where
  "run src airline month e =
     (case load_data src 200000 of
        Inl x \<Rightarrow> Inl x
      | Inr df \<Rightarrow>
          (case tables (e\<lparr>v_df := df, v_airline := airline, v_month := month\<rparr>) of
             Inl x \<Rightarrow> Inl x
           | Inr e' \<Rightarrow>
               Inr \<lparr>status_rows = length df, preview = take 20 df, computed = e',
                    scatter_tab = tab5 (v_scatter_matrix_df e')\<rparr>))"

section \<open>Orders used to state the results\<close>



text \<open>
  The exact value of a finite double, and the columns on which double arithmetic makes no
  rounding error before the final division: every entry a whole number, the magnitudes
  adding up to less than \<open>2 ^ 53\<close>.
\<close>

fun value_of :: "f64 \<Rightarrow> rat" where
  "value_of (Finite q) = q"
| "value_of x = 0"

fun whole_f64 :: "f64 \<Rightarrow> bool" where
  "whole_f64 (Finite q) = whole q"
| "whole_f64 x = False"

definition exact_minutes :: "f64 list \<Rightarrow> bool" where
  "exact_minutes vs \<longleftrightarrow>
     list_all whole_f64 vs \<and> sum_list (map (\<lambda>v. \<bar>value_of v\<bar>) vs) < 2 ^ 53"


section \<open>A small data set\<close>

text \<open>
  Five data lines used to run the definitions: three flights of carrier AA in January on
  day 15 with delays 10, -5 and 20, one flight of carrier DL in February, and one line
  whose delay is missing. The file has one column more than the script reads.
\<close>

definition l1 :: raw_line where
  "l1 = \<lparr>cell_MONTH = Field ''1'' (IntLit 1), cell_DAY = Field ''15'' (IntLit 15),
          cell_AIRLINE = Field ''AA'' NotNumber, cell_ORIGIN_AIRPORT = Field ''JFK'' NotNumber,
          cell_DEPARTURE_DELAY = Field ''10.0'' (DecLit 10)\<rparr>"

definition l2 :: raw_line where
  "l2 = \<lparr>cell_MONTH = Field ''1'' (IntLit 1), cell_DAY = Field ''15'' (IntLit 15),
          cell_AIRLINE = Field ''AA'' NotNumber, cell_ORIGIN_AIRPORT = Field ''JFK'' NotNumber,
          cell_DEPARTURE_DELAY = Field ''-5.0'' (DecLit (- 5))\<rparr>"

definition l3 :: raw_line where
  "l3 = \<lparr>cell_MONTH = Field ''1'' (IntLit 1), cell_DAY = Field ''15'' (IntLit 15),
          cell_AIRLINE = Field ''AA'' NotNumber, cell_ORIGIN_AIRPORT = Field ''ATL'' NotNumber,
          cell_DEPARTURE_DELAY = Field ''20'' (IntLit 20)\<rparr>"

definition l4 :: raw_line where
  "l4 = \<lparr>cell_MONTH = Field ''2'' (IntLit 2), cell_DAY = Field ''3'' (IntLit 3),
          cell_AIRLINE = Field ''DL'' NotNumber, cell_ORIGIN_AIRPORT = Field ''ATL'' NotNumber,
          cell_DEPARTURE_DELAY = Field ''7.0'' (DecLit 7)\<rparr>"

definition l5 :: raw_line where
  "l5 = \<lparr>cell_MONTH = Field ''1'' (IntLit 1), cell_DAY = Field ''15'' (IntLit 15),
          cell_AIRLINE = Field ''AA'' NotNumber, cell_ORIGIN_AIRPORT = Field ''JFK'' NotNumber,
          cell_DEPARTURE_DELAY = Missing\<rparr>"

definition sample_source :: source where
  "sample_source = Csv (''YEAR'' # cols) [l1, l5, l2, l3, l4]"

text \<open>The rows that these lines become.\<close>

definition f1 :: flight where
  "f1 = \<lparr>MONTH = Some 1, DAY = Some 15, AIRLINE = Some ''AA'', ORIGIN_AIRPORT = Some ''JFK'',
          DEPARTURE_DELAY = Finite 10\<rparr>"

definition f2 :: flight where
  "f2 = \<lparr>MONTH = Some 1, DAY = Some 15, AIRLINE = Some ''AA'', ORIGIN_AIRPORT = Some ''JFK'',
          DEPARTURE_DELAY = Finite (- 5)\<rparr>"

definition f3 :: flight where
  "f3 = \<lparr>MONTH = Some 1, DAY = Some 15, AIRLINE = Some ''AA'', ORIGIN_AIRPORT = Some ''ATL'',
          DEPARTURE_DELAY = Finite 20\<rparr>"

definition f4 :: flight where
  "f4 = \<lparr>MONTH = Some 2, DAY = Some 3, AIRLINE = Some ''DL'', ORIGIN_AIRPORT = Some ''ATL'',
          DEPARTURE_DELAY = Finite 7\<rparr>"

definition f5 :: flight where
  "f5 = \<lparr>MONTH = Some 1, DAY = Some 15, AIRLINE = Some ''AA'', ORIGIN_AIRPORT = Some ''JFK'',
          DEPARTURE_DELAY = NaN\<rparr>"


text \<open>
  Three flights of one carrier on one day whose delays cancel only in exact arithmetic,
  with the file they are read from, and two flights of one day with infinite delays.
\<close>

definition big_line :: "string \<Rightarrow> rat \<Rightarrow> raw_line" where
  "big_line s q =
     \<lparr>cell_MONTH = Field ''1'' (IntLit 1), cell_DAY = Field ''15'' (IntLit 15),
      cell_AIRLINE = Field ''AA'' NotNumber, cell_ORIGIN_AIRPORT = Field ''JFK'' NotNumber,
      cell_DEPARTURE_DELAY = Field s (DecLit q)\<rparr>"

definition big_source :: source where
  "big_source = Csv cols [big_line ''1e16'' 10000000000000000, big_line ''1.0'' 1,
     big_line ''-1e16'' (- 10000000000000000)]"

definition k1 :: flight where
  "k1 = f1\<lparr>DEPARTURE_DELAY := Finite 10000000000000000\<rparr>"

definition k2 :: flight where
  "k2 = f1\<lparr>DEPARTURE_DELAY := Finite 1\<rparr>"

definition k3 :: flight where
  "k3 = f1\<lparr>DEPARTURE_DELAY := Finite (- 10000000000000000)\<rparr>"





section \<open>Properties\<close>

lemmas sample_defs = f1_def f2_def f3_def f4_def f5_def

lemma getitem_mask_map: "getitem_mask df (map p df) = filter (\<lambda>r. p r = Some True) df"
  by (induction df) (auto simp: getitem_mask_def)

lemma mask_and_map:
  "mask_and (map p df) (map q df) = map (\<lambda>r. kleene_and (p r) (q r)) df"
  by (induction df) (auto simp: mask_and_def)

lemma kleene_and_True: "kleene_and a b = Some True \<longleftrightarrow> a = Some True \<and> b = Some True"
  by (cases "(a, b)" rule: kleene_and.cases) auto

lemma load_data_Csv:
  "load_data (Csv hdr lines) n =
     (if set cols \<subseteq> set hdr
      then (case convert (take n lines) of
              Inl e \<Rightarrow> Inl e
            | Inr rows \<Rightarrow> Inr (filter (\<lambda>r. DEPARTURE_DELAY r \<noteq> NaN) rows))
      else Inl ValueError)"
  by (simp add: load_data_def notna_def getitem_mask_map comp_def split: sum.splits)


lemma convert_error: "convert ls = Inl e \<Longrightarrow> e = ConversionError"
  by (induction ls arbitrary: e) (auto split: option.splits sum.splits)

lemma filtered_eq:
  "filtered df c m = filter (\<lambda>r. AIRLINE r = Some c \<and> MONTH r = Some m) df"
proof -
  have "filtered df c m =
      filter (\<lambda>r. kleene_and (case AIRLINE r of None \<Rightarrow> None | Some a \<Rightarrow> Some (a = c))
                              (case MONTH r of None \<Rightarrow> None | Some a \<Rightarrow> Some (a = m)) = Some True) df"
    by (simp add: filtered_def eq_scalar_def mask_and_map getitem_mask_map comp_def)
  also have "\<dots> = filter (\<lambda>r. AIRLINE r = Some c \<and> MONTH r = Some m) df"
    by (rule filter_cong) (auto simp: kleene_and_True split: option.splits)
  finally show ?thesis .
qed

lemma group_insert_keys:
  "set (map fst (group_insert k r g)) = insert k (set (map fst g))"
proof (induction g)
  case Nil
  then show ?case by simp
next
  case (Cons p g)
  obtain k' rs where p: "p = (k', rs)" by (cases p)
  show ?case using Cons by (simp add: p insert_commute)
qed

lemma group_insert_sorted:
  "sorted_wrt (<) (map fst g) \<Longrightarrow> sorted_wrt (<) (map fst (group_insert k r g))"
proof (induction g)
  case Nil
  then show ?case by simp
next
  case (Cons p g)
  obtain k' rs where p: "p = (k', rs)" by (cases p)
  have keys: "set (map fst (group_insert k r g)) = insert k (set (map fst g))"
    by (rule group_insert_keys)
  show ?case using Cons keys by (auto simp: p)
qed

lemma group_insert_map_of:
  "sorted_wrt (<) (map fst g) \<Longrightarrow>
   map_of (group_insert k r g) =
     (map_of g)(k \<mapsto> (case map_of g k of None \<Rightarrow> [] | Some rs \<Rightarrow> rs) @ [r])"
proof (induction g)
  case Nil
  then show ?case by simp
next
  case (Cons p g)
  obtain k' rs where p: "p = (k', rs)" by (cases p)
  show ?case
  proof (cases "k < k'")
    case True
    then have "k \<notin> fst ` set g" using Cons.prems by (auto simp: p)
    then have "map_of g k = None" by (simp add: map_of_eq_None_iff)
    then show ?thesis using True by (auto simp: p)
  next
    case False
    then show ?thesis using Cons by (auto simp: p)
  qed
qed

lemma group_rows_sorted:
  "sorted_wrt (<) (map fst g) \<Longrightarrow> sorted_wrt (<) (map fst (group_rows key g rs))"
  by (induction rs arbitrary: g) (auto simp: group_insert_sorted split: option.splits)

lemma group_rows_map_of:
  "sorted_wrt (<) (map fst g) \<Longrightarrow>
   map_of (group_rows key g rs) k =
     (case map_of g k of
        None \<Rightarrow> (if filter (\<lambda>r. key r = Some k) rs = [] then None
                 else Some (filter (\<lambda>r. key r = Some k) rs))
      | Some old \<Rightarrow> Some (old @ filter (\<lambda>r. key r = Some k) rs))"
proof (induction rs arbitrary: g)
  case Nil
  then show ?case by (simp split: option.splits)
next
  case (Cons r rs)
  show ?case
  proof (cases "key r")
    case None
    then show ?thesis using Cons.IH [OF Cons.prems] by (simp split: option.splits)
  next
    case (Some k')
    have s: "sorted_wrt (<) (map fst (group_insert k' r g))"
      using Cons.prems by (rule group_insert_sorted)
    show ?thesis
      using Cons.IH [OF s] Some
      by (auto simp: group_insert_map_of [OF Cons.prems] split: option.splits)
  qed
qed

lemma groupby_sorted: "sorted_wrt (<) (map fst (groupby key df))"
  by (simp add: groupby_def group_rows_sorted)

lemma groupby_map_of:
  "map_of (groupby key df) k =
     (if filter (\<lambda>r. key r = Some k) df = [] then None
      else Some (filter (\<lambda>r. key r = Some k) df))"
  by (simp add: groupby_def group_rows_map_of)

lemma groupby_distinct: "distinct (map fst (groupby key df))"
  using groupby_sorted [of key df] by (simp add: strict_sorted_iff)

lemma groupby_member:
  "(k, rs) \<in> set (groupby key df) \<longleftrightarrow>
     rs = filter (\<lambda>r. key r = Some k) df \<and> rs \<noteq> []"
proof -
  have "(k, rs) \<in> set (groupby key df) \<longleftrightarrow> map_of (groupby key df) k = Some rs"
    using groupby_distinct [of key df] by (simp add: map_of_eq_Some_iff)
  then show ?thesis by (auto simp: groupby_map_of)
qed

lemma groupby_key_set:
  "set (map fst (groupby key df)) = {k. \<exists>r\<in>set df. key r = Some k}"
proof -
  have "k \<in> set (map fst (groupby key df)) \<longleftrightarrow> (\<exists>r\<in>set df. key r = Some k)" for k
  proof -
    have "k \<in> set (map fst (groupby key df)) \<longleftrightarrow> (\<exists>rs. (k, rs) \<in> set (groupby key df))"
      by force
    also have "\<dots> \<longleftrightarrow> filter (\<lambda>r. key r = Some k) df \<noteq> []"
      by (simp add: groupby_member)
    also have "\<dots> \<longleftrightarrow> (\<exists>r\<in>set df. key r = Some k)"
      by (simp add: filter_empty_conv)
    finally show ?thesis .
  qed
  then show ?thesis by blast
qed

lemma groupby_keys:
  "map fst (groupby key df) = sorted_list_of_set {k. \<exists>r\<in>set df. key r = Some k}"
proof -
  have "sorted_list_of_set (set (map fst (groupby key df))) = map fst (groupby key df)"
    using groupby_sorted [of key df]
    by (intro sorted_list_of_set.idem_if_sorted_distinct) (simp_all add: strict_sorted_iff)
  then show ?thesis by (simp only: groupby_key_set)
qed

lemma agg_mean_keys: "map fst (agg_mean g) = map fst g"
  by (induction g) (auto simp: agg_mean_def)

lemma agg_mean_member:
  "(k, v) \<in> set (agg_mean g) \<longleftrightarrow> (\<exists>rs. (k, rs) \<in> set g \<and> v = mean (map DEPARTURE_DELAY rs))"
  by (auto simp: agg_mean_def)


section \<open>Rounding to a double\<close>

lemma pow2_powi: "pow2 e = 2 powi e"
  by (simp add: pow2_def power_int_def power_one_over)

lemma pow2_pos: "0 < pow2 e"
  by (simp add: pow2_powi)

lemma pow2_mono: "a \<le> b \<Longrightarrow> pow2 a \<le> pow2 b"
  by (simp add: pow2_powi power_int_increasing)

lemma pow2_nat: "pow2 (int k) = 2 ^ k"
  by (simp add: pow2_def)

lemma pow2_add: "pow2 (a + b) = pow2 a * pow2 b"
  by (simp add: pow2_powi power_int_add)

lemma exp_up_eq: "2 ^ k \<le> q \<Longrightarrow> q < 2 ^ Suc k \<Longrightarrow> k \<le> n \<Longrightarrow> exp_up n q = int k"
proof (induction n arbitrary: q k)
  case 0
  then show ?case by simp
next
  case (Suc n)
  show ?case
  proof (cases "q < 2")
    case True
    have "k = 0"
    proof (rule ccontr)
      assume "k \<noteq> 0"
      then have "(2::rat) ^ 1 \<le> 2 ^ k" by (intro power_increasing) simp_all
      with Suc.prems(1) True show False by simp
    qed
    with True show ?thesis by simp
  next
    case False
    have "k \<noteq> 0"
    proof
      assume "k = 0"
      with Suc.prems(2) False show False by simp
    qed
    then obtain j where j: "k = Suc j" by (cases k) auto
    have "2 ^ j \<le> q / 2" using Suc.prems(1) by (simp add: j)
    moreover have "q / 2 < 2 ^ Suc j" using Suc.prems(2) by (simp add: j)
    moreover have "j \<le> n" using Suc.prems(3) j by simp
    ultimately have "exp_up n (q / 2) = int j" by (rule Suc.IH)
    with False show ?thesis by (simp add: j)
  qed
qed

lemma exponent_eq:
  assumes "2 ^ k \<le> q" and "q < 2 ^ Suc k" and "k \<le> 1024"
  shows "exponent q = int k"
proof -
  have "(1::rat) \<le> 2 ^ k" by simp
  then have "1 \<le> q" using assms(1) by (rule order_trans)
  then show ?thesis using exp_up_eq [OF assms] by (simp add: exponent_def)
qed

lemma round_half_even_le: "of_int (round_half_even x) \<le> x + 1"
proof -
  have "of_int \<lfloor>x\<rfloor> \<le> x" by simp
  moreover have "round_half_even x \<le> \<lfloor>x\<rfloor> + 1" by (simp add: round_half_even_def Let_def)
  then have "(of_int (round_half_even x) :: rat) \<le> of_int (\<lfloor>x\<rfloor> + 1)"
    by (simp only: of_int_le_iff)
  ultimately show ?thesis by linarith
qed

lemma round_half_even_int: "round_half_even (of_int z) = z"
  by (simp add: round_half_even_def)

lemma round64_normal:
  assumes lo: "2 ^ k \<le> q" and hi: "q < 2 ^ Suc k" and k: "k \<le> 1022"
  shows "round64 q =
    Finite (of_int (round_half_even (q / pow2 (int k - 52))) * pow2 (int k - 52))"
proof -
  define u where "u = pow2 (int k - 52)"
  define m where "m = round_half_even (q / u)"
  have "(0::rat) < 2 ^ k" by simp
  then have q0: "0 < q" using lo by (rule less_le_trans)
  have e: "exponent q = int k" using lo hi k by (intro exponent_eq) simp_all
  have u0: "0 < u" by (simp add: u_def pow2_pos)
  have "of_int m \<le> q / u + 1"
    unfolding m_def by (rule round_half_even_le)
  then have "of_int m * u \<le> (q / u + 1) * u"
    using u0 by (simp add: mult_right_mono)
  also have "\<dots> = q + u" using u0 by (simp add: field_simps)
  also have "q + u < 2 ^ Suc k + 2 ^ Suc k"
  proof -
    have "u \<le> pow2 (int (Suc k))" unfolding u_def by (rule pow2_mono) simp
    then have "u \<le> 2 ^ Suc k" by (simp only: pow2_nat)
    with hi show ?thesis by (rule add_less_le_mono)
  qed
  also have "(2::rat) ^ Suc k + 2 ^ Suc k = pow2 (int k + 2)"
  proof -
    have "pow2 (int k + 2) = pow2 (int (k + 2))" by (simp only: of_nat_add) simp
    also have "\<dots> = 2 ^ (k + 2)" by (rule pow2_nat)
    finally show ?thesis by simp
  qed
  also have "\<dots> \<le> pow2 1024" using k by (intro pow2_mono) simp
  finally have small: "\<not> pow2 1024 \<le> of_int m * u" by simp
  have "round64 q = Finite (of_int m * u)"
    using q0 small e unfolding round64_def Let_def m_def u_def by simp
  then show ?thesis by (simp add: m_def u_def)
qed

lemma round64_minus: "round64 (- q) = fneg (round64 q)"
proof -
  consider "q = 0" | "0 < q" | "q < 0" by linarith
  then show ?thesis
  proof cases
    case 1
    then show ?thesis by (simp add: round64_def)
  next
    case 2
    then have "\<not> q < 0" "q \<noteq> 0" by simp_all
    with 2 show ?thesis by (simp add: round64_def Let_def)
  next
    case 3
    then have "\<not> 0 < q" "q \<noteq> 0" by simp_all
    with 3 show ?thesis by (simp add: round64_def Let_def)
  qed
qed


lemma round64_nat_exact:
  assumes "0 < i" and "i < 2 ^ 53"
  shows "round64 (of_nat i) = Finite (of_nat i)"
proof -
  from assms(1) have "1 \<le> i" by simp
  then have "\<exists>k. 2 ^ k \<le> i \<and> i < 2 ^ (k + 1)" by (intro ex_power_ivl1) simp_all
  then obtain k where k: "2 ^ k \<le> i" "i < 2 ^ (k + 1)" by blast
  from k(1) assms(2) have p: "(2::nat) ^ k < 2 ^ 53" by (rule le_less_trans)
  have k53: "k < 53"
  proof (rule power_less_imp_less_exp)
    show "(1::nat) < 2" by simp
    show "(2::nat) ^ k < 2 ^ 53" by (rule p)
  qed
  have "(of_nat (2 ^ k) :: rat) \<le> of_nat i" using k(1) by (simp only: of_nat_le_iff)
  then have lo: "(2::rat) ^ k \<le> of_nat i" by simp
  have "(of_nat i :: rat) < of_nat (2 ^ (k + 1))" using k(2) by (simp only: of_nat_less_iff)
  then have hi: "(of_nat i :: rat) < 2 ^ Suc k" by simp
  have k1022: "k \<le> 1022" using k53 by simp
  have "int k - 52 = - int (52 - k)" using k53 by simp
  then have "pow2 (int k - 52) = 2 powi (- int (52 - k))" by (simp only: pow2_powi)
  then have u: "pow2 (int k - 52) = 1 / 2 ^ (52 - k)"
    by (simp only: power_int_minus_divide power_int_of_nat)
  have "of_nat i / pow2 (int k - 52) = (of_int (int i * 2 ^ (52 - k)) :: rat)"
    unfolding u by simp
  then have "round_half_even (of_nat i / pow2 (int k - 52)) = int i * 2 ^ (52 - k)"
    by (simp only: round_half_even_int)
  then have "round64 (of_nat i) = Finite (of_int (int i * 2 ^ (52 - k)) * pow2 (int k - 52))"
    using round64_normal [OF lo hi k1022] by (simp only:)
  then show ?thesis unfolding u by simp
qed
lemma round64_int_exact:
  assumes "\<bar>i\<bar> < 2 ^ 53"
  shows "round64 (of_int i) = Finite (of_int i)"
proof -
  have pos: "round64 (of_int j) = Finite (of_int j)" if "0 < j" "j < 2 ^ 53" for j :: int
  proof -
    from that have "0 < nat j" "nat j < 2 ^ 53" by (simp_all add: nat_less_iff)
    then have "round64 (of_nat (nat j)) = Finite (of_nat (nat j))" by (rule round64_nat_exact)
    moreover have "(of_nat (nat j) :: rat) = of_int j" using that(1) by simp
    ultimately show ?thesis by simp
  qed
  consider "i = 0" | "0 < i" | "i < 0" by linarith
  then show ?thesis
  proof cases
    case 1
    then show ?thesis by (simp add: round64_def)
  next
    case 2
    with assms show ?thesis by (intro pos) simp_all
  next
    case 3
    with assms have "round64 (of_int (- i)) = Finite (of_int (- i))" by (intro pos) simp_all
    then have "fneg (round64 (of_int i)) = Finite (- of_int i)"
      using round64_minus [of "of_int i"] by simp
    then show ?thesis by (cases "round64 (of_int i)") simp_all
  qed
qed

section \<open>Summation without rounding error\<close>

lemma fadd_int:
  "\<bar>a + b\<bar> < 2 ^ 53 \<Longrightarrow>
   fadd (Finite (of_int a)) (Finite (of_int b)) = Finite (of_int (a + b))"
  using round64_int_exact [of "a + b"] by simp

lemma fsub_int:
  "\<bar>a - b\<bar> < 2 ^ 53 \<Longrightarrow>
   fsub (Finite (of_int a)) (Finite (of_int b)) = Finite (of_int (a - b))"
  using round64_int_exact [of "a - b"] by (simp add: fsub_def)

lemma kahan_step_int:
  assumes "\<bar>s\<bar> + \<bar>i\<bar> < 2 ^ 53"
  shows "kahan_step (Finite (of_int s), Finite 0) (Finite (of_int i)) =
    (Finite (of_int (s + i)), Finite 0)"
proof -
  have i: "\<bar>i - 0\<bar> < 2 ^ 53" and si: "\<bar>s + i\<bar> < 2 ^ 53"
    and d: "\<bar>(s + i) - s\<bar> < 2 ^ 53" and z: "\<bar>i - i\<bar> < (2::int) ^ 53"
    using assms by simp_all
  have y: "fsub (Finite (of_int i)) (Finite 0) = Finite (of_int i)"
    using fsub_int [OF i] by simp
  have t: "fadd (Finite (of_int s)) (Finite (of_int i)) = Finite (of_int (s + i))"
    using si by (rule fadd_int)
  have d': "fsub (Finite (of_int (s + i))) (Finite (of_int s)) = Finite (of_int i)"
    using fsub_int [OF d] by simp
  have c: "fsub (Finite (of_int i)) (Finite (of_int i)) = Finite 0"
    using fsub_int [OF z] by simp
  show ?thesis
    by (simp only: kahan_step_def Let_def fst_conv snd_conv y t d' c) simp
qed

lemma kahan_exact:
  "\<bar>s\<bar> + sum_list (map abs xs) < 2 ^ 53 \<Longrightarrow>
   foldl kahan_step (Finite (of_int s), Finite 0) (map (\<lambda>i. Finite (of_int i)) xs) =
     (Finite (of_int (s + sum_list xs)), Finite 0)"
proof (induction xs arbitrary: s)
  case Nil
  then show ?case by simp
next
  case (Cons i xs)
  have nonneg: "0 \<le> sum_list (map abs xs)" by (rule sum_list_nonneg) auto
  from Cons.prems have step: "\<bar>s\<bar> + \<bar>i\<bar> < 2 ^ 53" using nonneg by simp
  have "\<bar>s + i\<bar> \<le> \<bar>s\<bar> + \<bar>i\<bar>" by (rule abs_triangle_ineq)
  with Cons.prems have rest: "\<bar>s + i\<bar> + sum_list (map abs xs) < 2 ^ 53" by simp
  show ?case
    using Cons.IH [OF rest] by (simp add: kahan_step_int [OF step] add.assoc)
qed

lemma whole_f64_int:
  assumes "whole_f64 v"
  shows "v = Finite (of_int \<lfloor>value_of v\<rfloor>)"
proof (cases v)
  case (Finite q)
  with assms have "of_int \<lfloor>q\<rfloor> = q" by (simp only: whole_f64.simps whole_def)
  then show ?thesis by (simp only: Finite value_of.simps)
qed (insert assms, simp_all)

lemma exact_as_ints:
  assumes "list_all whole_f64 vs"
  shows "vs = map (\<lambda>i. Finite (of_int i)) (map (\<lambda>v. \<lfloor>value_of v\<rfloor>) vs) \<and>
    sum_list (map value_of vs) = of_int (sum_list (map (\<lambda>v. \<lfloor>value_of v\<rfloor>) vs)) \<and>
    sum_list (map (\<lambda>v. \<bar>value_of v\<bar>) vs) =
      of_int (sum_list (map abs (map (\<lambda>v. \<lfloor>value_of v\<rfloor>) vs)))"
  using assms
proof (induction vs)
  case Nil
  then show ?case by simp
next
  case (Cons v vs)
  then have v: "v = Finite (of_int \<lfloor>value_of v\<rfloor>)" by (simp add: whole_f64_int)
  then have "value_of v = of_int \<lfloor>value_of v\<rfloor>" by (metis value_of.simps(1))
  then show ?case using Cons v by simp
qed

lemma mean_exact:
  assumes "exact_minutes vs" and "vs \<noteq> []"
  shows "mean vs = round64 (sum_list (map value_of vs) / of_nat (length vs))"
proof -
  let ?is = "map (\<lambda>v. \<lfloor>value_of v\<rfloor>) vs"
  from assms(1) have all: "list_all whole_f64 vs"
    and small: "sum_list (map (\<lambda>v. \<bar>value_of v\<bar>) vs) < 2 ^ 53"
    by (simp_all add: exact_minutes_def)
  note ints = exact_as_ints [OF all]
  have "(of_int (sum_list (map abs ?is)) :: rat) < of_int (2 ^ 53)"
    using small ints by simp
  then have bound: "\<bar>0\<bar> + sum_list (map abs ?is) < 2 ^ 53"
    by (simp only: of_int_less_iff)
  have "\<forall>v\<in>set vs. v \<noteq> NaN"
  proof
    fix v assume "v \<in> set vs"
    with all have "whole_f64 v" by (simp add: list_all_iff)
    then show "v \<noteq> NaN" by auto
  qed
  then have keep: "filter (\<lambda>v. v \<noteq> NaN) vs = vs" by (rule filter_True)
  have "foldl kahan_step (Finite (of_int 0), Finite 0) (map (\<lambda>i. Finite (of_int i)) ?is) =
      (Finite (of_int (0 + sum_list ?is)), Finite 0)"
    using bound by (rule kahan_exact)
  then have "foldl kahan_step (Finite 0, Finite 0) vs = (Finite (sum_list (map value_of vs)), Finite 0)"
    using ints by simp
  then show ?thesis using assms(2) keep by (simp add: mean_def)
qed


section \<open>Some doubles\<close>

lemma round_half_even_up:
  assumes "of_int f + 1 / 2 < x" and "x < of_int f + 1"
  shows "round_half_even x = f + 1"
proof -
  have "\<lfloor>x\<rfloor> = f" using assms by (intro floor_unique) simp_all
  then show ?thesis using assms by (simp add: round_half_even_def Let_def)
qed

lemma round_half_even_tie:
  assumes "x = of_int f + 1 / 2"
  shows "round_half_even x = (if even f then f else f + 1)"
proof -
  have "\<lfloor>x\<rfloor> = f" using assms by (intro floor_unique) simp_all
  then show ?thesis using assms by (simp add: round_half_even_def Let_def)
qed

lemma pow2_1: "pow2 1 = 2"
  by (simp add: pow2_def)

lemma pow2_m49: "pow2 (- 49) = 1 / 562949953421312"
  by (simp add: pow2_def)

lemma round64_zero: "round64 0 = Finite 0"
  by (simp add: round64_def)

lemma round64_one: "round64 1 = Finite 1"
  using round64_int_exact [of 1] by simp

lemma round64_25_3: "round64 (25 / 3) = Finite (4691249611844267 / 562949953421312)"
proof -
  have u: "pow2 (int 3 - 52) = 1 / 2 ^ 49" by (simp add: pow2_def)
  have "round_half_even (25 / 3 / pow2 (int 3 - 52)) = 4691249611844266 + 1"
    unfolding u by (rule round_half_even_up) simp_all
  moreover have "(2::rat) ^ 3 \<le> 25 / 3" "(25 / 3 :: rat) < 2 ^ Suc 3" by simp_all
  then have "round64 (25 / 3) =
      Finite (of_int (round_half_even (25 / 3 / pow2 (int 3 - 52))) * pow2 (int 3 - 52))"
    by (rule round64_normal) simp
  ultimately show ?thesis by (simp add: pow2_1 pow2_m49)
qed

lemma round64_1e16: "round64 10000000000000000 = Finite 10000000000000000"
proof -
  have u: "pow2 (int 53 - 52) = 2" by (simp add: pow2_def)
  have "(10000000000000000 / 2 :: rat) = of_int 5000000000000000" by simp
  then have "round_half_even (10000000000000000 / pow2 (int 53 - 52)) = 5000000000000000"
    unfolding u by (simp only: round_half_even_int)
  moreover have "(2::rat) ^ 53 \<le> 10000000000000000" "(10000000000000000 :: rat) < 2 ^ Suc 53"
    by simp_all
  then have "round64 10000000000000000 =
      Finite (of_int (round_half_even (10000000000000000 / pow2 (int 53 - 52))) *
        pow2 (int 53 - 52))"
    by (rule round64_normal) simp
  ultimately show ?thesis by (simp add: pow2_1 pow2_m49)
qed

lemma round64_1e16_plus: "round64 10000000000000001 = Finite 10000000000000000"
proof -
  have u: "pow2 (int 53 - 52) = 2" by (simp add: pow2_def)
  have "round_half_even (10000000000000001 / 2) =
      (if even (5000000000000000::int) then 5000000000000000 else 5000000000000000 + 1)"
    by (rule round_half_even_tie) simp
  then have "round_half_even (10000000000000001 / pow2 (int 53 - 52)) = 5000000000000000"
    unfolding u by simp
  moreover have "(2::rat) ^ 53 \<le> 10000000000000001" "(10000000000000001 :: rat) < 2 ^ Suc 53"
    by simp_all
  then have "round64 10000000000000001 =
      Finite (of_int (round_half_even (10000000000000001 / pow2 (int 53 - 52))) *
        pow2 (int 53 - 52))"
    by (rule round64_normal) simp
  ultimately show ?thesis by (simp add: pow2_1 pow2_m49)
qed

lemma round64_1e16_minus: "round64 9999999999999999 = Finite 10000000000000000"
proof -
  have u: "pow2 (int 53 - 52) = 2" by (simp add: pow2_def)
  have "round_half_even (9999999999999999 / 2) =
      (if even (4999999999999999::int) then 4999999999999999 else 4999999999999999 + 1)"
    by (rule round_half_even_tie) simp
  then have "round_half_even (9999999999999999 / pow2 (int 53 - 52)) = 5000000000000000"
    unfolding u by simp
  moreover have "(2::rat) ^ 53 \<le> 9999999999999999" "(9999999999999999 :: rat) < 2 ^ Suc 53"
    by simp_all
  then have "round64 9999999999999999 =
      Finite (of_int (round_half_even (9999999999999999 / pow2 (int 53 - 52))) *
        pow2 (int 53 - 52))"
    by (rule round64_normal) simp
  ultimately show ?thesis by (simp add: pow2_1 pow2_m49)
qed

lemmas doubles = round64_zero round64_one round64_1e16 round64_1e16_plus round64_1e16_minus
  round64_minus

lemma mean_cancellation:
  "mean [Finite 10000000000000000, Finite 1, Finite (- 10000000000000000)] = Finite 0"
  by (simp add: mean_def kahan_step_def fsub_def Let_def doubles)

lemma mean_third:
  "mean [Finite 10, Finite (- 5), Finite 20] = Finite (4691249611844267 / 562949953421312)"
proof -
  have "exact_minutes [Finite 10, Finite (- 5), Finite 20]"
    by (simp add: exact_minutes_def whole_def)
  then have "mean [Finite 10, Finite (- 5), Finite 20] =
      round64 (sum_list (map value_of [Finite 10, Finite (- 5), Finite 20]) /
        of_nat (length [Finite 10, Finite (- 5), Finite 20]))"
    by (rule mean_exact) simp
  then show ?thesis by (simp add: round64_25_3)
qed

section \<open>The small data set, loaded\<close>

lemma sample_doubles:
  "round64 10 = Finite 10" "round64 5 = Finite 5" "round64 20 = Finite 20"
  "round64 7 = Finite 7"
  using round64_int_exact [of 10] round64_int_exact [of 5] round64_int_exact [of 20]
    round64_int_exact [of 7]
  by simp_all

lemma sample_lines:
  "convert_line l1 = Some f1" "convert_line l2 = Some f2" "convert_line l3 = Some f3"
  "convert_line l4 = Some f4" "convert_line l5 = Some f5"
  by (simp_all add: convert_line_def l1_def l2_def l3_def l4_def l5_def sample_defs
      in_int64_def sample_doubles round64_minus)


lemma sample_loaded: "load_data sample_source 200000 = Inr [f1, f2, f3, f4]"
  by (simp add: load_data_Csv sample_source_def sample_lines subset_insertI)
    (simp add: sample_defs)

section \<open>The claims about the loader and the filter\<close>



text \<open>
  C2. For every table, carrier and month, the filter stage yields exactly the rows whose
  \<^verbatim>\<open>AIRLINE\<close> is the carrier and whose \<^verbatim>\<open>MONTH\<close> is the month, in the order of the table; it
  has no more rows than the table, and it is empty exactly when no row matches.
\<close>

theorem filtered_subset:
  "filtered df c m = filter (\<lambda>r. AIRLINE r = Some c \<and> MONTH r = Some m) df \<and>
   subseq (filtered df c m) df \<and>
   length (filtered df c m) \<le> length df \<and>
   (filtered df c m = [] \<longleftrightarrow> (\<forall>r\<in>set df. \<not> (AIRLINE r = Some c \<and> MONTH r = Some m)))"
  by (simp add: filtered_eq filter_empty_conv)

theorem filtered_subset_witness:
  "filtered [f1, f2, f3, f4] ''DL'' 1 = [] \<and> filtered [f1, f2, f3, f4] ''DL'' 2 = [f4] \<and>
   filtered [f1, f2, f3, f4] ''AA'' 1 = [f1, f2, f3] \<and>
   length (filtered [f1, f2, f3, f4] ''AA'' 1) \<le> length [f1, f2, f3, f4]"
  using filtered_subset [of "[f1, f2, f3, f4]" "''DL''" 1]
    filtered_subset [of "[f1, f2, f3, f4]" "''DL''" 2]
    filtered_subset [of "[f1, f2, f3, f4]" "''AA''" 1]
  by (simp add: sample_defs)

section \<open>The frequency table\<close>














lemma sort_values_desc_Nil: "sort_values_desc [] = []"
  by (simp add: sort_values_desc_def)

lemma sort_values_desc_Cons:
  "sort_values_desc (x # t) = insert_desc x (sort_values_desc t)"
  by (simp add: sort_values_desc_def)


lemma length_insert_desc: "length (insert_desc x ys) = Suc (length ys)"
  by (induction ys) auto



lemma length_sort_values_desc: "length (sort_values_desc t) = length t"
  by (induction t) (simp_all add: sort_values_desc_Nil sort_values_desc_Cons length_insert_desc)












lemma count_column:
  "length (filter (\<lambda>v. v = Some a) (map ORIGIN_AIRPORT flt)) =
   length (filter (\<lambda>r. ORIGIN_AIRPORT r = Some a) flt)"
  by (simp add: filter_map comp_def)

section \<open>The claim about the top five airports\<close>




section \<open>Means of groups\<close>

lemma agg_groupby_keys:
  "map fst (agg_mean (groupby key df)) = sorted_list_of_set {k. \<exists>r\<in>set df. key r = Some k}"
  by (simp only: agg_mean_keys groupby_keys)

lemma agg_groupby_member:
  "(k, v) \<in> set (agg_mean (groupby key df)) \<longleftrightarrow>
     filter (\<lambda>r. key r = Some k) df \<noteq> [] \<and>
     v = mean (map DEPARTURE_DELAY (filter (\<lambda>r. key r = Some k) df))"
  by (auto simp: agg_mean_member groupby_member)

lemma agg_groupby_strict: "sorted_wrt (<) (map fst (agg_mean (groupby key df)))"
  by (simp only: agg_mean_keys groupby_sorted)

lemma group_mean_exact:
  assumes "exact_minutes (map DEPARTURE_DELAY rs)" and "rs \<noteq> []"
  shows "mean (map DEPARTURE_DELAY rs) =
    round64 (sum_list (map (\<lambda>r. value_of (DEPARTURE_DELAY r)) rs) / of_nat (length rs))"
  using mean_exact [OF assms(1)] assms(2) by (simp add: comp_def)

lemma agg_groupby_loaded:
  assumes "\<forall>r\<in>set df. DEPARTURE_DELAY r \<noteq> NaN"
    and "(k, v) \<in> set (agg_mean (groupby key df))"
  shows "filter (\<lambda>r. key r = Some k) df \<noteq> [] \<and>
     (\<forall>r\<in>set (filter (\<lambda>r. key r = Some k) df). DEPARTURE_DELAY r \<noteq> NaN) \<and>
     v = mean (map DEPARTURE_DELAY (filter (\<lambda>r. key r = Some k) df)) \<and>
     (exact_minutes (map DEPARTURE_DELAY (filter (\<lambda>r. key r = Some k) df)) \<longrightarrow>
        v = round64 (sum_list (map (\<lambda>r. value_of (DEPARTURE_DELAY r))
                       (filter (\<lambda>r. key r = Some k) df)) /
                     of_nat (length (filter (\<lambda>r. key r = Some k) df))))"
proof -
  let ?rs = "filter (\<lambda>r. key r = Some k) df"
  from assms(2) have ne: "?rs \<noteq> []" and v: "v = mean (map DEPARTURE_DELAY ?rs)"
    by (simp_all add: agg_groupby_member)
  from assms(1) have all: "\<forall>r\<in>set ?rs. DEPARTURE_DELAY r \<noteq> NaN" by simp
  have "v = round64 (sum_list (map (\<lambda>r. value_of (DEPARTURE_DELAY r)) ?rs) /
      of_nat (length ?rs))"
    if "exact_minutes (map DEPARTURE_DELAY ?rs)"
    unfolding v using that ne by (rule group_mean_exact)
  with ne all v show ?thesis by blast
qed

lemma load_data_present:
  assumes "load_data src n = Inr df"
  shows "\<forall>r\<in>set df. DEPARTURE_DELAY r \<noteq> NaN"
proof (cases src)
  case (Csv hdr lines)
  with assms show ?thesis by (auto simp: load_data_Csv split: if_splits sum.splits)
qed (insert assms, simp_all add: load_data_def)

lemma filtered_present:
  "\<forall>r\<in>set df. DEPARTURE_DELAY r \<noteq> NaN \<Longrightarrow>
   \<forall>r\<in>set (filtered df c m). DEPARTURE_DELAY r \<noteq> NaN"
  by (simp add: filtered_eq)

lemma mean_7: "mean [Finite 7] = Finite 7"
proof -
  have "exact_minutes [Finite 7]" by (simp add: exact_minutes_def whole_def)
  then have "mean [Finite 7] =
      round64 (sum_list (map value_of [Finite 7]) / of_nat (length [Finite 7]))"
    by (rule mean_exact) simp
  then show ?thesis by (simp add: sample_doubles)
qed

lemma sample_monthly:
  "monthly [f1, f2, f3, f4] =
     [(1, Finite (4691249611844267 / 562949953421312)), (2, Finite 7)]"
  by (simp add: monthly_def groupby_def agg_mean_def sample_defs mean_third mean_7)

lemma big_loaded: "load_data big_source 200000 = Inr [k1, k2, k3]"
  by (simp add: load_data_Csv big_source_def big_line_def convert_line_def in_int64_def
      cols_def doubles k1_def k2_def k3_def f1_def)

lemma big_monthly: "monthly [k1, k2, k3] = [(1, Finite 0)]"
  by (simp add: monthly_def groupby_def agg_mean_def k1_def k2_def k3_def f1_def
      mean_cancellation)

lemma big_trend: "trend (filtered [k1, k2, k3] ''AA'' 1) = [(15, Finite 0)]"
  by (simp add: filtered_eq trend_def groupby_def agg_mean_def k1_def k2_def k3_def f1_def
      mean_cancellation)

lemma sample_trend:
  "trend (filtered [f1, f2, f3, f4] ''AA'' 1) =
     [(15, Finite (4691249611844267 / 562949953421312))]"
  by (simp add: filtered_eq trend_def groupby_def agg_mean_def sample_defs mean_third)

section \<open>The claims about the monthly and the daily means\<close>

text \<open>
  C3, as the code has it. For a loaded table, \<^verbatim>\<open>monthly\<close> has exactly one row for each
  month that is present in a row of the table, in ascending order of the month. The
  \<^verbatim>\<open>retard_moyen\<close> of a month is the double that the library's mean gives for the delays
  of the rows of that month, taken in the order of the table; there is at least one such
  row and each has a delay. It is the arithmetic mean of those delays rounded to the
  nearest double when they are whole numbers whose magnitudes add up to less than
  \<open>2 ^ 53\<close>; otherwise it need not be the arithmetic mean.
\<close>

theorem monthly_mean:
  assumes "load_data src n = Inr df"
  shows "map fst (monthly df) = sorted_list_of_set {m. \<exists>r\<in>set df. MONTH r = Some m} \<and>
    distinct (map fst (monthly df)) \<and> sorted (map fst (monthly df)) \<and>
    (\<forall>(m, v)\<in>set (monthly df).
       filter (\<lambda>r. MONTH r = Some m) df \<noteq> [] \<and>
       (\<forall>r\<in>set (filter (\<lambda>r. MONTH r = Some m) df). DEPARTURE_DELAY r \<noteq> NaN) \<and>
       v = mean (map DEPARTURE_DELAY (filter (\<lambda>r. MONTH r = Some m) df)) \<and>
       (exact_minutes (map DEPARTURE_DELAY (filter (\<lambda>r. MONTH r = Some m) df)) \<longrightarrow>
          v = round64 (sum_list (map (\<lambda>r. value_of (DEPARTURE_DELAY r))
                         (filter (\<lambda>r. MONTH r = Some m) df)) /
                       of_nat (length (filter (\<lambda>r. MONTH r = Some m) df)))))"
proof -
  have keys: "map fst (monthly df) = sorted_list_of_set {m. \<exists>r\<in>set df. MONTH r = Some m}"
    unfolding monthly_def by (rule agg_groupby_keys)
  have "sorted_wrt (<) (map fst (monthly df))"
    unfolding monthly_def by (rule agg_groupby_strict)
  then have ds: "distinct (map fst (monthly df))" "sorted (map fst (monthly df))"
    by (simp_all add: strict_sorted_iff)
  have loaded: "\<forall>r\<in>set df. DEPARTURE_DELAY r \<noteq> NaN"
    using assms by (rule load_data_present)
  show ?thesis
    using keys ds agg_groupby_loaded [OF loaded, of _ _ MONTH]
    unfolding monthly_def by blast
qed

theorem monthly_mean_witness:
  "load_data sample_source 200000 = Inr [f1, f2, f3, f4] \<and>
   monthly [f1, f2, f3, f4] =
     [(1, Finite (4691249611844267 / 562949953421312)), (2, Finite 7)] \<and>
   map fst (monthly [f1, f2, f3, f4]) =
     sorted_list_of_set {m. \<exists>r\<in>set [f1, f2, f3, f4]. MONTH r = Some m} \<and>
   sorted (map fst (monthly [f1, f2, f3, f4])) \<and>
   exact_minutes (map DEPARTURE_DELAY (filter (\<lambda>r. MONTH r = Some 1) [f1, f2, f3, f4])) \<and>
   round64 (sum_list (map (\<lambda>r. value_of (DEPARTURE_DELAY r))
              (filter (\<lambda>r. MONTH r = Some 1) [f1, f2, f3, f4])) /
            of_nat (length (filter (\<lambda>r. MONTH r = Some 1) [f1, f2, f3, f4]))) =
     Finite (4691249611844267 / 562949953421312)"
proof -
  have ex: "exact_minutes (map DEPARTURE_DELAY
      (filter (\<lambda>r. MONTH r = Some 1) [f1, f2, f3, f4]))"
    by (simp add: sample_defs exact_minutes_def whole_def)
  have r: "round64 (sum_list (map (\<lambda>r. value_of (DEPARTURE_DELAY r))
              (filter (\<lambda>r. MONTH r = Some 1) [f1, f2, f3, f4])) /
            of_nat (length (filter (\<lambda>r. MONTH r = Some 1) [f1, f2, f3, f4]))) =
     Finite (4691249611844267 / 562949953421312)"
    by (simp add: sample_defs round64_25_3)
  show ?thesis
    using monthly_mean [OF sample_loaded] sample_loaded sample_monthly ex r by simp
qed

theorem monthly_mean_not_arithmetic:
  "load_data big_source 200000 = Inr [k1, k2, k3] \<and>
   monthly [k1, k2, k3] = [(1, Finite 0)] \<and>
   filter (\<lambda>r. MONTH r = Some 1) [k1, k2, k3] = [k1, k2, k3] \<and>
   map DEPARTURE_DELAY [k1, k2, k3] =
     [Finite 10000000000000000, Finite 1, Finite (- 10000000000000000)] \<and>
   (10000000000000000 + 1 + - 10000000000000000) / 3 = (1 / 3 :: rat) \<and>
   Finite 0 \<noteq> Finite (1 / 3)"
  using big_loaded big_monthly by (simp add: k1_def k2_def k3_def f1_def)

text \<open>
  C6, as the code has it. For the filtered subset of a loaded table, \<^verbatim>\<open>trend\<close> has exactly
  one row for each day that is present in a row of the subset, and none when the subset is
  empty. The \<^verbatim>\<open>retard_moyen\<close> of a day is the double that the library's mean gives for the
  delays of the rows of that day, taken in the order of the table; it is their arithmetic
  mean rounded to the nearest double when they are whole numbers whose magnitudes add up
  to less than \<open>2 ^ 53\<close>, and otherwise need not be the arithmetic mean.
\<close>

theorem trend_mean:
  assumes "load_data src n = Inr df"
  shows "map fst (trend (filtered df c m)) =
      sorted_list_of_set {d. \<exists>r\<in>set (filtered df c m). DAY r = Some d} \<and>
    distinct (map fst (trend (filtered df c m))) \<and>
    (\<forall>(d, v)\<in>set (trend (filtered df c m)).
       filter (\<lambda>r. DAY r = Some d) (filtered df c m) \<noteq> [] \<and>
       (\<forall>r\<in>set (filter (\<lambda>r. DAY r = Some d) (filtered df c m)). DEPARTURE_DELAY r \<noteq> NaN) \<and>
       v = mean (map DEPARTURE_DELAY (filter (\<lambda>r. DAY r = Some d) (filtered df c m))) \<and>
       (exact_minutes (map DEPARTURE_DELAY
            (filter (\<lambda>r. DAY r = Some d) (filtered df c m))) \<longrightarrow>
          v = round64 (sum_list (map (\<lambda>r. value_of (DEPARTURE_DELAY r))
                         (filter (\<lambda>r. DAY r = Some d) (filtered df c m))) /
                       of_nat (length (filter (\<lambda>r. DAY r = Some d) (filtered df c m)))))) \<and>
    (filtered df c m = [] \<longrightarrow> trend (filtered df c m) = [])"
proof -
  let ?flt = "filtered df c m"
  have keys: "map fst (trend ?flt) = sorted_list_of_set {d. \<exists>r\<in>set ?flt. DAY r = Some d}"
    unfolding trend_def by (rule agg_groupby_keys)
  have "sorted_wrt (<) (map fst (trend ?flt))"
    unfolding trend_def by (rule agg_groupby_strict)
  then have ds: "distinct (map fst (trend ?flt))"
    by (simp add: strict_sorted_iff)
  have "\<forall>r\<in>set df. DEPARTURE_DELAY r \<noteq> NaN"
    using assms by (rule load_data_present)
  then have loaded: "\<forall>r\<in>set ?flt. DEPARTURE_DELAY r \<noteq> NaN"
    by (rule filtered_present)
  have empty: "?flt = [] \<longrightarrow> trend ?flt = []"
    by (simp add: trend_def groupby_def agg_mean_def)
  show ?thesis
    using keys ds empty agg_groupby_loaded [OF loaded, of _ _ DAY]
    unfolding trend_def by blast
qed

theorem trend_mean_witness:
  "load_data sample_source 200000 = Inr [f1, f2, f3, f4] \<and>
   trend (filtered [f1, f2, f3, f4] ''AA'' 1) =
     [(15, Finite (4691249611844267 / 562949953421312))] \<and>
   filtered [f1, f2, f3, f4] ''DL'' 1 = [] \<and>
   trend (filtered [f1, f2, f3, f4] ''DL'' 1) = [] \<and>
   distinct (map fst (trend (filtered [f1, f2, f3, f4] ''AA'' 1))) \<and>
   exact_minutes (map DEPARTURE_DELAY
     (filter (\<lambda>r. DAY r = Some 15) (filtered [f1, f2, f3, f4] ''AA'' 1)))"
proof -
  have ex: "exact_minutes (map DEPARTURE_DELAY
      (filter (\<lambda>r. DAY r = Some 15) (filtered [f1, f2, f3, f4] ''AA'' 1)))"
    by (simp add: filtered_eq sample_defs exact_minutes_def whole_def)
  have e: "filtered [f1, f2, f3, f4] ''DL'' 1 = []"
    by (simp add: filtered_eq sample_defs)
  show ?thesis
    using trend_mean [OF sample_loaded, of "''AA''" 1] trend_mean [OF sample_loaded, of "''DL''" 1]
      sample_loaded sample_trend ex e
    by simp
qed

theorem trend_mean_not_arithmetic:
  "load_data big_source 200000 = Inr [k1, k2, k3] \<and>
   filtered [k1, k2, k3] ''AA'' 1 = [k1, k2, k3] \<and>
   trend (filtered [k1, k2, k3] ''AA'' 1) = [(15, Finite 0)] \<and>
   filter (\<lambda>r. DAY r = Some 15) [k1, k2, k3] = [k1, k2, k3] \<and>
   map DEPARTURE_DELAY [k1, k2, k3] =
     [Finite 10000000000000000, Finite 1, Finite (- 10000000000000000)] \<and>
   (10000000000000000 + 1 + - 10000000000000000) / 3 = (1 / 3 :: rat) \<and>
   Finite 0 \<noteq> Finite (1 / 3)"
  using big_loaded big_trend by (simp add: filtered_eq k1_def k2_def k3_def f1_def)

section \<open>The heat table and its pivot\<close>


lemma df_top5_eq:
  "df_top5 flt top5 = filter (\<lambda>r. \<exists>a\<in>set top5. ORIGIN_AIRPORT r = Some a) flt"
proof -
  have "df_top5 flt top5 =
      filter (\<lambda>r. (case ORIGIN_AIRPORT r of None \<Rightarrow> Some False
                    | Some a \<Rightarrow> Some (a \<in> set top5)) = Some True) flt"
    by (simp add: df_top5_def isin_def getitem_mask_map comp_def)
  also have "\<dots> = filter (\<lambda>r. \<exists>a\<in>set top5. ORIGIN_AIRPORT r = Some a) flt"
    by (rule filter_cong) (auto split: option.splits)
  finally show ?thesis .
qed










section \<open>The claim about the day by airport matrix\<close>









section \<open>Where a mean is a number\<close>





lemma df_top5_present:
  "\<forall>r\<in>set flt. DEPARTURE_DELAY r \<noteq> NaN \<Longrightarrow>
   \<forall>r\<in>set (df_top5 flt top5). DEPARTURE_DELAY r \<noteq> NaN"
  by (simp add: df_top5_eq)






section \<open>The claim about missing means\<close>





end
